theory Spec2Isabelle
  imports Main "HOL-Library.Word"
begin

unbundle bit_operations_syntax

section \<open>Data model of the binding (py-lz4framed.c)\<close>

type_synonym byte = "8 word"
type_synonym bytes = "byte list"

text \<open>
  The error identifiers of the codec, in the order in which the module initialiser
  registers them (\<^verbatim>\<open>PyModule_AddIntMacro(module, LZ4F_ERROR_...)\<close>).
\<close>

datatype LZ4F_errorCodes =
    LZ4F_ERROR_GENERIC
  | LZ4F_ERROR_maxBlockSize_invalid
  | LZ4F_ERROR_blockMode_invalid
  | LZ4F_ERROR_contentChecksumFlag_invalid
  | LZ4F_ERROR_compressionLevel_invalid
  | LZ4F_ERROR_headerVersion_wrong
  | LZ4F_ERROR_blockChecksum_unsupported
  | LZ4F_ERROR_reservedFlag_set
  | LZ4F_ERROR_allocation_failed
  | LZ4F_ERROR_srcSize_tooLarge
  | LZ4F_ERROR_dstMaxSize_tooSmall
  | LZ4F_ERROR_frameHeader_incomplete
  | LZ4F_ERROR_frameType_unknown
  | LZ4F_ERROR_frameSize_wrong
  | LZ4F_ERROR_srcPtr_wrong
  | LZ4F_ERROR_decompressionFailed
  | LZ4F_ERROR_headerChecksum_invalid
  | LZ4F_ERROR_contentChecksum_invalid

text \<open>
  What a binding function leaves behind when it returns \<^verbatim>\<open>NULL\<close>: the Python
  exception that was set. \<^verbatim>\<open>BAIL_ON_LZ4_ERROR\<close> raises \<open>Lz4FramedError\<close> with the
  codec's error identifier; argument checks raise \<open>ValueError\<close> with their message;
  the \<^verbatim>\<open>i\<close> format of the argument parser raises \<open>OverflowError\<close> for a Python
  integer outside the range of a C \<^verbatim>\<open>int\<close>; a warning that the interpreter's
  warning filter turns into an exception is \<open>RuntimeWarning\<close>. A message that the
  program formats with the offending number is given without the number.
\<close>

datatype pyerr =
    ValueError string
  | OverflowError
  | Lz4FramedError LZ4F_errorCodes
  | RuntimeWarning string

definition INT_MIN :: int where "INT_MIN = - (2 ^ 31)"
definition INT_MAX :: int where "INT_MAX = 2 ^ 31 - 1"

text \<open>The \<^verbatim>\<open>i\<close> format unit: a Python integer converted to a C \<^verbatim>\<open>int\<close>.\<close>

definition parse_int :: "int \<Rightarrow> pyerr + int" where
  "parse_int v = (if v < INT_MIN \<or> INT_MAX < v then Inl OverflowError else Inr v)"

section \<open>Block size classes\<close>

text \<open>
  Modelled from the spec: the enumerators of the block size classes (\<open>Default\<close>,
  \<open>Max64KB\<close>, \<open>Max256KB\<close>, \<open>Max1MB\<close>, \<open>Max4MB\<close>), which are declared in the
  codec's header \<^verbatim>\<open>lz4frame.h\<close>. Their numeric values are the ones the table lookup
  of \<^verbatim>\<open>_lz4f_block_size_from_id\<close> (\<^verbatim>\<open>id -= 4\<close> into a table of four entries)
  is written for.
\<close>

definition LZ4F_default :: int where "LZ4F_default = 0"
definition LZ4F_max64KB :: int where "LZ4F_max64KB = 4"
definition LZ4F_max256KB :: int where "LZ4F_max256KB = 5"
definition LZ4F_max1MB :: int where "LZ4F_max1MB = 6"
definition LZ4F_max4MB :: int where "LZ4F_max4MB = 7"

definition valid_lz4f_block_size_id :: "int \<Rightarrow> bool" where
  "valid_lz4f_block_size_id i \<longleftrightarrow>
     i = LZ4F_default \<or> i = LZ4F_max64KB \<or> i = LZ4F_max256KB \<or> i = LZ4F_max1MB \<or> i = LZ4F_max4MB"

definition KB :: nat where "KB = 2 ^ 10"
definition MB :: nat where "MB = 2 ^ 20"

definition blockSizes :: "nat list" where
  "blockSizes = [64 * KB, 256 * KB, 1 * MB, 4 * MB]"

definition lz4f_block_size_from_id :: "int \<Rightarrow> nat" where
  "lz4f_block_size_from_id i =
     (if \<not> valid_lz4f_block_size_id i then 0
      else let i1 = (if i = LZ4F_default then LZ4F_max64KB else i);
               i2 = i1 - 4
           in blockSizes ! nat i2)"

text \<open>\<^verbatim>\<open>get_block_size(id)\<close>.\<close>

definition lz4framed_get_block_size :: "int \<Rightarrow> pyerr + nat" where
  "lz4framed_get_block_size v =
     (case parse_int v of
        Inl e \<Rightarrow> Inl e
      | Inr block_id \<Rightarrow>
          if \<not> valid_lz4f_block_size_id block_id then Inl (ValueError ''id invalid'')
          else Inr (lz4f_block_size_from_id block_id))"

section \<open>The codec's streaming decoder, as the binding sees it\<close>

datatype LZ4F_blockMode = LZ4F_blockLinked | LZ4F_blockIndependent

datatype LZ4F_contentChecksum = LZ4F_noContentChecksum | LZ4F_contentChecksumEnabled

text \<open>The fields of \<^verbatim>\<open>LZ4F_frameInfo_t\<close> that the binding reads or writes.\<close>

record LZ4F_frameInfo =
  blockSizeID :: int
  blockMode :: LZ4F_blockMode
  contentChecksumFlag :: LZ4F_contentChecksum
  contentSize :: nat

text \<open>
  The decoding functions of the codec library, which the binding only links against, are
  parameters of the model. Each one yields an error identifier or its results, and the
  context it leaves (\<^verbatim>\<open>LZ4F_getFrameInfo\<close> also when it fails):

  \<^item> \<^verbatim>\<open>LZ4F_createDecompressionContext\<close>: a fresh context;
  \<^item> \<^verbatim>\<open>LZ4F_getFrameInfo(ctx, &info, src, &srcSize)\<close>: from the context and the
    source window, the input hint, the frame information and the number of source bytes
    read;
  \<^item> \<^verbatim>\<open>LZ4F_decompress(ctx, dst, &dstSize, src, &srcSize, opt)\<close>: from the context,
    the capacity of the destination window, the source window and the \<^verbatim>\<open>stableDst\<close>
    option, the next input hint, the bytes written to the destination and the number of
    source bytes read.
\<close>

record 'c LZ4F_dlib =
  LZ4F_createDecompressionContext :: "LZ4F_errorCodes + 'c"
  LZ4F_getFrameInfo :: "'c \<Rightarrow> bytes \<Rightarrow> (LZ4F_errorCodes + nat \<times> LZ4F_frameInfo \<times> nat) \<times> 'c"
  LZ4F_decompress :: "'c \<Rightarrow> nat \<Rightarrow> bytes \<Rightarrow> bool \<Rightarrow> LZ4F_errorCodes + (nat \<times> bytes \<times> nat \<times> 'c)"

text \<open>
  The codec's interface contract on the two in/out size arguments of
  \<^verbatim>\<open>LZ4F_decompress\<close>: it writes no more than the destination holds and reads no more
  than the source holds.
\<close>

definition LZ4F_decompress_bounded :: "'c LZ4F_dlib \<Rightarrow> bool" where
  "LZ4F_decompress_bounded lib \<longleftrightarrow>
     (\<forall>c cap src sd h w n c'. LZ4F_decompress lib c cap src sd = Inr (h, w, n, c')
        \<longrightarrow> length w \<le> cap \<and> n \<le> length src)"

section \<open>Incremental decompression: \<^verbatim>\<open>decompress_update\<close>\<close>

text \<open>What a Python list returned by the binding holds.\<close>

datatype pyval = PyBytes bytes | PyLong nat

text \<open>
  \<^verbatim>\<open>chunk_len\<close> is declared \<^verbatim>\<open>size_t chunk_len = 65536\<close>, but the argument
  parser fills it through the \<^verbatim>\<open>i\<close> format, which stores a C \<^verbatim>\<open>int\<close> at the
  variable's address. On an LP64 little-endian target the four bytes of the
  \<^verbatim>\<open>int\<close> replace the low half of the eight-byte variable and the high half keeps
  its initial value.
\<close>

definition store_int_in_size_t :: "nat \<Rightarrow> int \<Rightarrow> nat" where
  "store_int_in_size_t old v = (old div 2 ^ 32) * 2 ^ 32 + nat (v mod 2 ^ 32)"

definition parse_chunk_len :: "int option \<Rightarrow> pyerr + nat" where
  "parse_chunk_len a =
     (case a of
        None \<Rightarrow> Inr 65536
      | Some v \<Rightarrow> (case parse_int v of Inl e \<Rightarrow> Inl e | Inr i \<Rightarrow> Inr (store_int_in_size_t 65536 i)))"

text \<open>
  The local variables of \<^verbatim>\<open>_lz4framed_decompress_update\<close>. \<open>input\<close> is the window
  \<^verbatim>\<open>input_pos\<close>, \<^verbatim>\<open>input_remaining\<close>; \<open>chunk\<close> holds the bytes written so far into
  the current chunk object, whose free space is \<open>chunk_remaining\<close> (\<^verbatim>\<open>chunk_written\<close>
  carries the same number into each codec call).
\<close>

record 'c upd_state =
  ctx :: 'c
  input :: bytes
  input_size_hint :: nat
  chunks :: "bytes list"
  chunk :: bytes
  chunk_remaining :: nat

definition next_chunk :: "nat \<Rightarrow> 'c upd_state \<Rightarrow> 'c upd_state" where
  "next_chunk chunk_len st =
     (if chunk_remaining st \<le> 0
      then st\<lparr>chunks := chunks st @ [chunk st], chunk := [], chunk_remaining := chunk_len\<rparr>
      else st)"

definition after_step :: "'c upd_state \<Rightarrow> nat \<times> bytes \<times> nat \<times> 'c \<Rightarrow> 'c upd_state" where
  "after_step st r =
     (case r of (h, w, n, c) \<Rightarrow>
        st\<lparr>ctx := c, input_size_hint := h, chunk := chunk st @ w,
           chunk_remaining := chunk_remaining st - length w, input := drop n (input st)\<rparr>)"

partial_function (option) decompress_update_loop ::
  "'c LZ4F_dlib \<Rightarrow> nat \<Rightarrow> 'c upd_state \<Rightarrow> (LZ4F_errorCodes + 'c upd_state) option" where
  "decompress_update_loop lib chunk_len st =
     (if input st \<noteq> [] \<and> input_size_hint st > 0 then
        (let st1 = next_chunk chunk_len st in
         case LZ4F_decompress lib (ctx st1) (chunk_remaining st1) (input st1) False of
           Inl e \<Rightarrow> Some (Inl e)
         | Inr r \<Rightarrow> decompress_update_loop lib chunk_len (after_step st1 r))
      else Some (Inr st))"

definition upd_init :: "'c \<Rightarrow> bytes \<Rightarrow> nat \<Rightarrow> 'c upd_state" where
  "upd_init c b chunk_len =
     \<lparr>ctx = c, input = b, input_size_hint = 1, chunks = [], chunk = [],
      chunk_remaining = chunk_len\<rparr>"

text \<open>The list built after the loop: the full chunks, the shortened last chunk if it
  holds any data, and the input hint.\<close>

definition upd_result :: "nat \<Rightarrow> 'c upd_state \<Rightarrow> pyval list" where
  "upd_result chunk_len st =
     map PyBytes (chunks st)
     @ (if chunk_remaining st < chunk_len
        then [PyBytes (take (chunk_len - chunk_remaining st) (chunk st))] else [])
     @ [PyLong (input_size_hint st)]"

text \<open>
  \<^verbatim>\<open>decompress_update(ctx, b, chunk_len=65536)\<close>. The first argument is \<open>None\<close> for
  any object that is not a decompression context capsule; the codec is called without
  options, so \<^verbatim>\<open>stableDst\<close> is off. The result is \<open>None\<close> when the
  loop does not return; otherwise the exception raised, or the returned list together
  with the context as the codec left it.
\<close>

definition lz4framed_decompress_update ::
  "'c LZ4F_dlib \<Rightarrow> 'c option \<Rightarrow> bytes \<Rightarrow> int option \<Rightarrow> (pyerr + pyval list \<times> 'c) option" where
  "lz4framed_decompress_update lib ctx_capsule b chunk_len_arg =
     (case parse_chunk_len chunk_len_arg of
        Inl e \<Rightarrow> Some (Inl e)
      | Inr chunk_len \<Rightarrow>
          (case ctx_capsule of
             None \<Rightarrow> Some (Inl (ValueError ''ctx invalid''))
           | Some c \<Rightarrow>
               if length b \<le> 0 then Some (Inl (ValueError ''b (data) is empty''))
               else if chunk_len \<le> 0 then Some (Inl (ValueError ''chunk_len invalid''))
               else (case decompress_update_loop lib chunk_len (upd_init c b chunk_len) of
                       None \<Rightarrow> None
                     | Some (Inl e) \<Rightarrow> Some (Inl (Lz4FramedError e))
                     | Some (Inr st) \<Rightarrow> Some (Inr (upd_result chunk_len st, ctx st)))))"

section \<open>One-shot decompression: \<^verbatim>\<open>decompress\<close>\<close>

text \<open>
  What the function does to its output object, in program order: the initial
  \<^verbatim>\<open>PyBytes_FromStringAndSize\<close>, every \<^verbatim>\<open>_PyBytes_Resize\<close> (the ones that enlarge the
  buffer inside the loop and the last one, which cuts the object to the length written),
  and every \<^verbatim>\<open>PyErr_WarnEx\<close>.
\<close>

datatype event = Alloc nat | Resize nat | Warn string

text \<open>
  The local variables of \<^verbatim>\<open>_lz4framed_decompress\<close> inside its loop. \<open>d_buf\<close> is the
  content of the output object (always \<open>d_len\<close> bytes; bytes not yet written are
  unspecified in the program and zero here), \<open>d_pos\<close> the offset of \<^verbatim>\<open>output_pos\<close>
  in it. \<^verbatim>\<open>output_written\<close> and \<^verbatim>\<open>input_read\<close> carry \<open>d_remaining\<close> and the
  length of \<open>d_input\<close> into each codec call. Sizes are natural numbers: the model does
  not cover an allocation that fails.
\<close>

record 'c dec_state =
  d_ctx :: 'c
  d_input :: bytes
  d_hint :: nat
  d_buf :: bytes
  d_pos :: nat
  d_len :: nat
  d_remaining :: nat
  d_events :: "event list"

definition MAX_macro :: "nat \<Rightarrow> nat \<Rightarrow> nat" where
  "MAX_macro x y = (if x \<ge> y then x else y)"

text \<open>Storing \<open>w\<close> into the buffer at offset \<open>pos\<close>.\<close>

definition write_at :: "bytes \<Rightarrow> nat \<Rightarrow> bytes \<Rightarrow> bytes" where
  "write_at b pos w = take pos b @ w @ drop (pos + length w) b"

text \<open>\<^verbatim>\<open>_PyBytes_Resize\<close>: the content is kept up to the new length.\<close>

definition resize :: "bytes \<Rightarrow> nat \<Rightarrow> bytes" where
  "resize b n = take n b @ replicate (n - length b) 0"

definition dec_after_step :: "'c dec_state \<Rightarrow> nat \<times> bytes \<times> nat \<times> 'c \<Rightarrow> 'c dec_state" where
  "dec_after_step st r =
     (case r of (h, w, n, c) \<Rightarrow>
        st\<lparr>d_ctx := c, d_hint := h,
           d_buf := write_at (d_buf st) (d_pos st) w,
           d_pos := d_pos st + length w,
           d_remaining := d_remaining st - length w,
           d_input := drop n (d_input st)\<rparr>)"

text \<open>The branch "destination too small" after the warning.\<close>

definition dec_grow :: "'c dec_state \<Rightarrow> 'c dec_state" where
  "dec_grow st =
     (let output_remaining = d_remaining st + d_len st;
          output_len = d_len st * 2
      in st\<lparr>d_remaining := output_remaining, d_len := output_len,
            d_buf := resize (d_buf st) output_len,
            d_pos := output_len - output_remaining,
            d_events := d_events st @ [Resize output_len]\<rparr>)"

definition mismatch_msg :: string where
  "mismatch_msg = ''lz4frame contentSize mismatch''"

text \<open>
  The loop \<^verbatim>\<open>while (input_size_hint)\<close>. \<open>warn_raises\<close> says whether the interpreter's
  warning filter turns a \<open>RuntimeWarning\<close> into an exception, in which case
  \<^verbatim>\<open>PyErr_WarnEx\<close> returns nonzero.
\<close>

partial_function (option) decompress_loop ::
  "'c LZ4F_dlib \<Rightarrow> bool \<Rightarrow> LZ4F_frameInfo \<Rightarrow> bool \<Rightarrow> 'c dec_state \<Rightarrow> (pyerr + 'c dec_state) option" where
  "decompress_loop lib warn_raises frame_info stableDst st =
     (if d_hint st \<noteq> 0 then
        (case LZ4F_decompress lib (d_ctx st) (d_remaining st) (d_input st) stableDst of
           Inl e \<Rightarrow> Some (Inl (Lz4FramedError e))
         | Inr r \<Rightarrow>
             (let st1 = dec_after_step st r in
              if d_hint st1 = 0 then Some (Inr (st1\<lparr>d_len := d_len st1 - d_remaining st1\<rparr>))
              else if length (d_input st1) > 0 then
                (if contentSize frame_info > 0 then
                   (if warn_raises then Some (Inl (RuntimeWarning mismatch_msg))
                    else decompress_loop lib warn_raises frame_info stableDst
                           (dec_grow (st1\<lparr>d_events := d_events st1 @ [Warn mismatch_msg]\<rparr>)))
                 else decompress_loop lib warn_raises frame_info stableDst (dec_grow st1))
              else decompress_loop lib warn_raises frame_info stableDst st1))
      else Some (Inr st))"

definition parse_buffer_size :: "int option \<Rightarrow> pyerr + int" where
  "parse_buffer_size a = (case a of None \<Rightarrow> Inr 1024 | Some v \<Rightarrow> parse_int v)"

definition dec_init :: "'c \<Rightarrow> bytes \<Rightarrow> nat \<Rightarrow> nat \<Rightarrow> 'c dec_state" where
  "dec_init c inp hint output_len =
     \<lparr>d_ctx = c, d_input = inp, d_hint = hint, d_buf = replicate output_len 0, d_pos = 0,
      d_len = output_len, d_remaining = output_len, d_events = [Alloc output_len]\<rparr>"

text \<open>
  \<^verbatim>\<open>decompress(b, buffer_size=1024)\<close>. The result is \<open>None\<close> when the loop does not
  return; otherwise the exception raised, or the bytes returned together with the
  events on the output object.
\<close>

definition lz4framed_decompress ::
  "'c LZ4F_dlib \<Rightarrow> bool \<Rightarrow> bytes \<Rightarrow> int option \<Rightarrow> (pyerr + bytes \<times> event list) option" where
  "lz4framed_decompress lib warn_raises b buffer_size_arg =
     (case parse_buffer_size buffer_size_arg of
        Inl e \<Rightarrow> Some (Inl e)
      | Inr buffer_size \<Rightarrow>
          if length b \<le> 0 then Some (Inl (ValueError ''b (data) is empty''))
          else if buffer_size \<le> 0 then Some (Inl (ValueError ''buffer_size invalid''))
          else (case LZ4F_createDecompressionContext lib of
                  Inl e \<Rightarrow> Some (Inl (Lz4FramedError e))
                | Inr c \<Rightarrow>
                    (case LZ4F_getFrameInfo lib c b of
                       (Inl e, c1) \<Rightarrow> Some (Inl (Lz4FramedError e))
                     | (Inr (hint, frame_info, input_read), c1) \<Rightarrow>
                         (let inp = drop input_read b;
                              stableDst = (contentSize frame_info > 0);
                              output_len = (if contentSize frame_info > 0 then contentSize frame_info
                                            else MAX_macro (nat buffer_size) (length inp))
                          in case decompress_loop lib warn_raises frame_info stableDst
                                    (dec_init c1 inp hint output_len) of
                               None \<Rightarrow> None
                             | Some (Inl e) \<Rightarrow> Some (Inl e)
                             | Some (Inr st) \<Rightarrow>
                                 Some (Inr (resize (d_buf st) (d_len st),
                                            d_events st @ [Resize (d_len st)]))))))"

section \<open>Contract of the decoder on a complete frame\<close>

text \<open>
  \<open>LZ4F_decodes lib sd I\<close> states what the binding relies on when the source window holds
  the whole rest of a frame. \<open>I c src out\<close> reads: from context \<open>c\<close>, the window \<open>src\<close>
  holds the rest of the frame, and \<open>out\<close> is the part of the original bytes that is still
  to be delivered. A call then writes a prefix of \<open>out\<close>; it reports hint 0 in the call
  that delivers the last byte (the end mark and the checksum are read in that same call);
  and it stops earlier only because the destination is full, leaving input unread.
\<close>

definition LZ4F_decodes :: "'c LZ4F_dlib \<Rightarrow> bool \<Rightarrow> ('c \<Rightarrow> bytes \<Rightarrow> bytes \<Rightarrow> bool) \<Rightarrow> bool" where
  "LZ4F_decodes lib sd I \<longleftrightarrow>
     (\<forall>c src out cap. I c src out \<longrightarrow>
        (\<exists>h w n c'. LZ4F_decompress lib c cap src sd = Inr (h, w, n, c')
           \<and> length w \<le> cap \<and> n \<le> length src \<and> w = take (length w) out
           \<and> (h = 0 \<longrightarrow> w = out)
           \<and> (h \<noteq> 0 \<longrightarrow> length w = cap \<and> cap < length out \<and> drop n src \<noteq> []
                          \<and> I c' (drop n src) (drop (length w) out))))"

text \<open>
  The events of \<open>k\<close> successive enlargements of a buffer of \<open>l\<close> bytes; \<open>w\<close> says
  whether each one is preceded by the content size warning.
\<close>

fun grow_events :: "bool \<Rightarrow> nat \<Rightarrow> nat \<Rightarrow> event list" where
  "grow_events w l 0 = []"
| "grow_events w l (Suc k) =
     (if w then [Warn mismatch_msg] else []) @ [Resize (l * 2)] @ grow_events w (l * 2) k"

text \<open>Invariant of the loop of \<^verbatim>\<open>decompress_update\<close>: every finished chunk is full, and the
  current chunk and its free space add up to the chunk length.\<close>

definition upd_inv :: "nat \<Rightarrow> 'c upd_state \<Rightarrow> bool" where
  "upd_inv cl st \<longleftrightarrow>
     (\<forall>c \<in> set (chunks st). length c = cl) \<and> length (chunk st) + chunk_remaining st = cl"

text \<open>The bytes written so far by a call of \<^verbatim>\<open>decompress_update\<close>: the finished chunks
  and the current one.\<close>

definition upd_content :: "'c upd_state \<Rightarrow> bytes" where
  "upd_content st = concat (chunks st) @ chunk st"

text \<open>\<open>ws\<close> cut into chunks of \<open>cl\<close> bytes, the last one shorter; no chunk is empty.\<close>

function chop :: "nat \<Rightarrow> bytes \<Rightarrow> bytes list" where
  "chop cl ws = (if cl = 0 \<or> ws = [] then [] else take cl ws # chop cl (drop cl ws))"
  by pat_completeness auto
termination
  by (relation "measure (\<lambda>(cl, ws). length ws)") auto

declare chop.simps [simp del]

text \<open>
  What the decoder is asked and answers during one call of \<open>decompress_update\<close> with
  chunk length \<open>cl\<close>, stated apart from the program. \<open>upd_run lib cl c src free ws h c' rest\<close>
  reads: starting with context \<open>c\<close>, input \<open>src\<close> not yet read and \<open>free\<close> bytes of space
  in the current chunk, the decoder is called on all the input not yet read, with the
  free space of the current chunk as capacity (a chunk that has become full is followed
  by a fresh one of \<open>cl\<close> bytes); the calls end with the first one that reports hint 0 or
  leaves no input; together they wrote \<open>ws\<close>, the last one reported hint \<open>h\<close> and left
  context \<open>c'\<close> and the input \<open>rest\<close> unread.
\<close>

inductive upd_run ::
  "'c LZ4F_dlib \<Rightarrow> nat \<Rightarrow> 'c \<Rightarrow> bytes \<Rightarrow> nat \<Rightarrow> bytes \<Rightarrow> nat \<Rightarrow> 'c \<Rightarrow> bytes \<Rightarrow> bool"
  for lib :: "'c LZ4F_dlib" and cl :: nat where
  final:
    "src \<noteq> [] \<Longrightarrow> LZ4F_decompress lib c free src False = Inr (h, w, n, c') \<Longrightarrow>
     h = 0 \<or> drop n src = [] \<Longrightarrow>
     upd_run lib cl c src free w h c' (drop n src)"
| more:
    "src \<noteq> [] \<Longrightarrow> LZ4F_decompress lib c free src False = Inr (h, w, n, c1) \<Longrightarrow>
     0 < h \<Longrightarrow> drop n src \<noteq> [] \<Longrightarrow>
     upd_run lib cl c1 (drop n src) (if free - length w = 0 then cl else free - length w)
       ws h' c' rest \<Longrightarrow>
     upd_run lib cl c src free (w @ ws) h' c' rest"

text \<open>Invariant of the loop of \<^verbatim>\<open>decompress\<close> at its head, for original bytes \<open>p\<close>.\<close>

definition dec_inv :: "('c \<Rightarrow> bytes \<Rightarrow> bytes \<Rightarrow> bool) \<Rightarrow> bytes \<Rightarrow> 'c dec_state \<Rightarrow> bool" where
  "dec_inv I p st \<longleftrightarrow>
     d_len st = length (d_buf st) \<and> d_pos st + d_remaining st = d_len st
     \<and> take (d_pos st) (d_buf st) = take (d_pos st) p \<and> d_pos st \<le> length p
     \<and> I (d_ctx st) (d_input st) (drop (d_pos st) p) \<and> d_hint st \<noteq> 0 \<and> 0 < d_remaining st"

text \<open>The state after \<^verbatim>\<open>PyErr_WarnEx\<close> has returned zero, when the frame declares its
  content size; the same state otherwise.\<close>

definition warned :: "LZ4F_frameInfo \<Rightarrow> 'c dec_state \<Rightarrow> 'c dec_state" where
  "warned fi st =
     (if contentSize fi > 0 then st\<lparr>d_events := d_events st @ [Warn mismatch_msg]\<rparr> else st)"


section \<open>A run-length codec, for the examples\<close>

text \<open>
  A frame of this codec has four bytes: the declared content size (0 for unknown), a
  count, a fill byte and an end mark; it stands for the fill byte repeated count times.
  The decoder buffers a header (the first three bytes) that arrives in pieces, writes
  as many bytes as the destination holds, reads the end mark in the call that delivers
  the last byte, and is then ready for the next frame.
\<close>

datatype toy_ctx = AwaitHeader bytes | Payload LZ4F_frameInfo nat byte

definition toy_info :: "bytes \<Rightarrow> LZ4F_frameInfo" where
  "toy_info hb = \<lparr>blockSizeID = LZ4F_max64KB, blockMode = LZ4F_blockIndependent,
                  contentChecksumFlag = LZ4F_noContentChecksum, contentSize = unat (hb ! 0)\<rparr>"

definition toy_emit ::
  "LZ4F_frameInfo \<Rightarrow> nat \<Rightarrow> byte \<Rightarrow> nat \<Rightarrow> bytes \<Rightarrow> nat
     \<Rightarrow> LZ4F_errorCodes + (nat \<times> bytes \<times> nat \<times> toy_ctx)" where
  "toy_emit fi left fill cap src before =
     (let k = min cap left; left' = left - k
      in if left' = 0 \<and> src \<noteq> []
         then Inr (0, replicate k fill, before + 1, AwaitHeader [])
         else Inr (1, replicate k fill, before, Payload fi left' fill))"

definition toy_decompress ::
  "toy_ctx \<Rightarrow> nat \<Rightarrow> bytes \<Rightarrow> bool \<Rightarrow> LZ4F_errorCodes + (nat \<times> bytes \<times> nat \<times> toy_ctx)" where
  "toy_decompress c cap src sd =
     (case c of
        Payload fi left fill \<Rightarrow> toy_emit fi left fill cap src 0
      | AwaitHeader hbuf \<Rightarrow>
          (let m = 3 - length hbuf; hb = hbuf @ take m src
           in if length hb < 3 then Inr (3 - length hb, [], length src, AwaitHeader hb)
              else toy_emit (toy_info hb) (unat (hb ! 1)) (hb ! 2) cap (drop m src) m))"

definition toy_getFrameInfo ::
  "toy_ctx \<Rightarrow> bytes \<Rightarrow> (LZ4F_errorCodes + nat \<times> LZ4F_frameInfo \<times> nat) \<times> toy_ctx" where
  "toy_getFrameInfo c src =
     (case c of
        Payload fi left fill \<Rightarrow> (Inr (1, fi, 0), c)
      | AwaitHeader hbuf \<Rightarrow>
          (let m = 3 - length hbuf; hb = hbuf @ take m src
           in if length hb < 3 then (Inl LZ4F_ERROR_frameHeader_incomplete, AwaitHeader hb)
              else (Inr (1, toy_info hb, m), Payload (toy_info hb) (unat (hb ! 1)) (hb ! 2))))"

definition toy_lib :: "toy_ctx LZ4F_dlib" where
  "toy_lib = \<lparr>LZ4F_createDecompressionContext = Inr (AwaitHeader []),
              LZ4F_getFrameInfo = toy_getFrameInfo,
              LZ4F_decompress = toy_decompress\<rparr>"


text \<open>What the rest of a frame of this codec looks like to a context.\<close>

definition toy_rest :: "toy_ctx \<Rightarrow> bytes \<Rightarrow> bytes \<Rightarrow> bool" where
  "toy_rest c src out \<longleftrightarrow>
     (case c of
        Payload fi left fill \<Rightarrow> out = replicate left fill \<and> src \<noteq> []
      | AwaitHeader hbuf \<Rightarrow> False)"



section \<open>Compression: the binding's functions\<close>














section \<open>The frame writer of the codec\<close>

text \<open>
  The frame writer lives in the codec library, not in the binding. It is modelled from
  the spec: the components \<open>FrameHeaderBuilder\<close>, \<open>BlockEncoder\<close> and \<open>FrameFinalizer\<close>
  of its system overview, the operations of its component design, and the byte-level
  frame format of its external interfaces. The block compressor and the checksum, which
  the spec treats as external collaborators, are parameters.
\<close>
























section \<open>Frame information: \<^verbatim>\<open>get_frame_info\<close>\<close>





section \<open>The frame reader of the codec\<close>









section \<open>Block size class mapping\<close>

text \<open>
  Claim C5: \<open>get_block_size\<close> returns 65536 for the Max64KB class, 262144 for
  Max256KB, 1048576 for Max1MB and 4194304 for Max4MB, and for the Default class the
  same value as for Max64KB.
\<close>

theorem get_block_size_classes:
  "lz4framed_get_block_size LZ4F_max64KB = Inr 65536
   \<and> lz4framed_get_block_size LZ4F_max256KB = Inr 262144
   \<and> lz4framed_get_block_size LZ4F_max1MB = Inr 1048576
   \<and> lz4framed_get_block_size LZ4F_max4MB = Inr 4194304
   \<and> lz4framed_get_block_size LZ4F_default = lz4framed_get_block_size LZ4F_max64KB"
  by (simp add: lz4framed_get_block_size_def parse_int_def INT_MIN_def INT_MAX_def
      valid_lz4f_block_size_id_def lz4f_block_size_from_id_def blockSizes_def KB_def MB_def
      LZ4F_default_def LZ4F_max64KB_def LZ4F_max256KB_def LZ4F_max1MB_def LZ4F_max4MB_def)

section \<open>Lemmas on the loop of \<^verbatim>\<open>decompress_update\<close>\<close>

lemma upd_inv_next: "upd_inv cl st \<Longrightarrow> upd_inv cl (next_chunk cl st)"
  by (auto simp: upd_inv_def next_chunk_def)

lemma upd_inv_step:
  "upd_inv cl st \<Longrightarrow> length w \<le> chunk_remaining st \<Longrightarrow> upd_inv cl (after_step st (h, w, n, c))"
  by (auto simp: upd_inv_def after_step_def)

lemma upd_loop_inv_aux:
  assumes run: "decompress_update_loop lib cl st = Some r"
  shows "LZ4F_decompress_bounded lib \<longrightarrow> upd_inv cl st \<longrightarrow> (\<forall>st'. r = Inr st' \<longrightarrow> upd_inv cl st')"
proof (rule decompress_update_loop.raw_induct[OF _ run], goal_cases)
  case (1 loop lib cl st r)
  note IH = 1(1) and eq = 1(2)
  show ?case
  proof (intro impI allI)
    fix st'
    assume bd: "LZ4F_decompress_bounded lib" and iv: "upd_inv cl st" and rr: "r = Inr st'"
    show "upd_inv cl st'"
    proof (cases "input st \<noteq> [] \<and> input_size_hint st > 0")
      case False
      with eq rr iv show ?thesis by auto
    next
      case True
      let ?st1 = "next_chunk cl st"
      from True eq rr obtain h w n c where
        d: "LZ4F_decompress lib (ctx ?st1) (chunk_remaining ?st1) (input ?st1) False = Inr (h, w, n, c)"
        and l: "loop lib cl (after_step ?st1 (h, w, n, c)) = Some r"
        by (auto simp: Let_def split: sum.splits)
      from d bd have "length w \<le> chunk_remaining ?st1"
        unfolding LZ4F_decompress_bounded_def by blast
      then have "upd_inv cl (after_step ?st1 (h, w, n, c))"
        by (rule upd_inv_step[OF upd_inv_next[OF iv]])
      with IH[OF l] bd rr show ?thesis by simp
    qed
  qed
qed

lemma upd_loop_stop:
  "\<not> (input st \<noteq> [] \<and> input_size_hint st > 0) \<Longrightarrow> decompress_update_loop lib cl st = Some (Inr st)"
  by (subst decompress_update_loop.simps) auto

lemma upd_loop_step:
  "input st \<noteq> [] \<Longrightarrow> input_size_hint st > 0 \<Longrightarrow>
   LZ4F_decompress lib (ctx (next_chunk cl st)) (chunk_remaining (next_chunk cl st)) (input (next_chunk cl st)) False = Inr r \<Longrightarrow>
   decompress_update_loop lib cl st = decompress_update_loop lib cl (after_step (next_chunk cl st) r)"
  by (subst decompress_update_loop.simps) (simp add: Let_def)

lemma upd_loop_err:
  "input st \<noteq> [] \<Longrightarrow> input_size_hint st > 0 \<Longrightarrow>
   LZ4F_decompress lib (ctx (next_chunk cl st)) (chunk_remaining (next_chunk cl st)) (input (next_chunk cl st)) False = Inl e \<Longrightarrow>
   decompress_update_loop lib cl st = Some (Inl e)"
  by (subst decompress_update_loop.simps) (simp add: Let_def)

lemma next_chunk_input: "input (next_chunk cl st) = input st"
  by (simp add: next_chunk_def)

lemma after_step_sel:
  "input_size_hint (after_step st (h, w, n, c)) = h"
  "ctx (after_step st (h, w, n, c)) = c"
  "input (after_step st (h, w, n, c)) = drop n (input st)"
  by (simp_all add: after_step_def)

lemma upd_loop_inv:
  assumes "decompress_update_loop lib cl st = Some (Inr st')" "LZ4F_decompress_bounded lib" "upd_inv cl st"
  shows "upd_inv cl st'"
  using upd_loop_inv_aux[OF assms(1)] assms(2,3) by simp

lemma upd_inv_init: "upd_inv cl (upd_init c b cl)"
  by (simp add: upd_inv_def upd_init_def)

lemma store_int_pos:
  "0 < cl \<Longrightarrow> int cl \<le> INT_MAX \<Longrightarrow> store_int_in_size_t 65536 (int cl) = cl"
  by (simp add: store_int_in_size_t_def INT_MAX_def)

lemma parse_chunk_len_ok:
  assumes "a = None \<and> cl = 65536 \<or> a = Some (int cl) \<and> 0 < cl \<and> int cl \<le> INT_MAX"
  shows "parse_chunk_len a = Inr cl \<and> 0 < cl"
  using assms
  by (auto simp: parse_chunk_len_def parse_int_def store_int_pos INT_MIN_def INT_MAX_def)


lemma chop_nil: "chop cl [] = []"
  by (subst chop.simps) simp

lemma chop_cons: "0 < cl \<Longrightarrow> ws \<noteq> [] \<Longrightarrow> chop cl ws = take cl ws # chop cl (drop cl ws)"
  by (subst chop.simps) simp





lemma chop_chunks:
  "0 < cl \<Longrightarrow> \<forall>c\<in>set cs. length c = cl \<Longrightarrow> length p \<le> cl \<Longrightarrow>
   chop cl (concat cs @ p) = cs @ (if p = [] then [] else [p])"
proof (induction cs)
  case Nil
  then show ?case by (cases "p = []") (simp_all add: chop_nil chop_cons)
next
  case (Cons x xs)
  then have x: "length x = cl" "x \<noteq> []" by auto
  then have "chop cl (concat (x # xs) @ p) = x # chop cl (concat xs @ p)"
    using Cons.prems(1) by (simp add: chop_cons)
  with Cons show ?case by simp
qed

lemma upd_result_chop:
  assumes iv: "upd_inv cl st" and cl: "0 < cl"
  shows "upd_result cl st = map PyBytes (chop cl (upd_content st)) @ [PyLong (input_size_hint st)]"
proof -
  from iv have full: "\<forall>c\<in>set (chunks st). length c = cl"
    and sum: "length (chunk st) + chunk_remaining st = cl" by (simp_all add: upd_inv_def)
  from sum have le: "length (chunk st) \<le> cl" by simp
  have ch: "chop cl (upd_content st) = chunks st @ (if chunk st = [] then [] else [chunk st])"
    unfolding upd_content_def by (rule chop_chunks[OF cl full le])
  show ?thesis
  proof (cases "chunk_remaining st < cl")
    case True
    with sum have "0 < length (chunk st)" "length (chunk st) \<le> cl - chunk_remaining st"
      by linarith+
    then have "chunk st \<noteq> []" "take (cl - chunk_remaining st) (chunk st) = chunk st" by simp_all
    with True show ?thesis by (simp add: upd_result_def ch)
  next
    case False
    with sum have "length (chunk st) = 0" by linarith
    then have "chunk st = []" by simp
    with False show ?thesis by (simp add: upd_result_def ch)
  qed
qed

lemma upd_content_next: "upd_content (next_chunk cl st) = upd_content st"
  by (simp add: upd_content_def next_chunk_def)

lemma upd_content_step:
  "upd_content (after_step st (h, w, n, c)) = upd_content st @ w"
  by (simp add: upd_content_def after_step_def)

lemma next_chunk_sel:
  "ctx (next_chunk cl st) = ctx st" "input_size_hint (next_chunk cl st) = input_size_hint st"
  by (simp_all add: next_chunk_def)

lemma after_step_rem:
  "chunk_remaining (after_step st (h, w, n, c)) = chunk_remaining st - length w"
  by (simp add: after_step_def)

lemma next_chunk_rem:
  "chunk_remaining (next_chunk cl st) = (if chunk_remaining st = 0 then cl else chunk_remaining st)"
  by (simp add: next_chunk_def)

text \<open>The program makes the calls that \<open>upd_run\<close> describes, and returns.\<close>

lemma upd_run_loop:
  assumes run: "upd_run lib cl c src free ws h c' rest"
    and bd: "LZ4F_decompress_bounded lib"
  shows "upd_inv cl st \<Longrightarrow> ctx st = c \<Longrightarrow> input st = src \<Longrightarrow> 0 < input_size_hint st \<Longrightarrow>
         chunk_remaining (next_chunk cl st) = free \<Longrightarrow>
         \<exists>st'. decompress_update_loop lib cl st = Some (Inr st') \<and> ctx st' = c'
            \<and> input_size_hint st' = h \<and> input st' = rest
            \<and> upd_content st' = upd_content st @ ws \<and> upd_inv cl st'"
  using run
proof (induction arbitrary: st rule: upd_run.induct)
  case (final src c free h w n c')
  let ?st1 = "next_chunk cl st"
  let ?s2 = "after_step ?st1 (h, w, n, c')"
  from final.hyps(1) final.prems have go: "input st \<noteq> []" "0 < input_size_hint st" by simp_all
  from final.hyps(2) final.prems have d: "LZ4F_decompress lib (ctx ?st1) (chunk_remaining ?st1) (input ?st1) False
                        = Inr (h, w, n, c')"
    by (simp add: next_chunk_sel next_chunk_input)
  from d bd have wl: "length w \<le> chunk_remaining ?st1"
    unfolding LZ4F_decompress_bounded_def by blast
  have iv2: "upd_inv cl ?s2" by (rule upd_inv_step[OF upd_inv_next[OF final.prems(1)] wl])
  have stop: "\<not> (input ?s2 \<noteq> [] \<and> 0 < input_size_hint ?s2)"
    using final.hyps(3) final.prems(3) by (auto simp: after_step_sel next_chunk_input)
  have "decompress_update_loop lib cl st = decompress_update_loop lib cl ?s2"
    by (rule upd_loop_step[OF go d])
  also have "\<dots> = Some (Inr ?s2)" by (rule upd_loop_stop[OF stop])
  finally have "decompress_update_loop lib cl st = Some (Inr ?s2)" .
  moreover have "ctx ?s2 = c'" "input_size_hint ?s2 = h" "input ?s2 = drop n src"
    using final.prems(3) by (simp_all add: after_step_sel next_chunk_input)
  moreover have "upd_content ?s2 = upd_content st @ w"
    by (simp add: upd_content_step upd_content_next)
  ultimately show ?case using iv2 by (intro exI[of _ ?s2]) simp
next
  case (more src c free h w n c1 ws h' c' rest)
  let ?st1 = "next_chunk cl st"
  let ?s2 = "after_step ?st1 (h, w, n, c1)"
  from more.hyps(1) more.prems have go: "input st \<noteq> []" "0 < input_size_hint st" by simp_all
  from more.hyps(2) more.prems have d: "LZ4F_decompress lib (ctx ?st1) (chunk_remaining ?st1) (input ?st1) False
                        = Inr (h, w, n, c1)"
    by (simp add: next_chunk_sel next_chunk_input)
  from d bd have wl: "length w \<le> chunk_remaining ?st1"
    unfolding LZ4F_decompress_bounded_def by blast
  have iv2: "upd_inv cl ?s2" by (rule upd_inv_step[OF upd_inv_next[OF more.prems(1)] wl])
  have s2: "ctx ?s2 = c1" "input ?s2 = drop n src" "0 < input_size_hint ?s2"
    using more.prems(3) more.hyps(3) by (simp_all add: after_step_sel next_chunk_input)
  have fr: "chunk_remaining (next_chunk cl ?s2) = (if free - length w = 0 then cl else free - length w)"
    using more.prems(5) by (simp add: next_chunk_rem after_step_rem)
  from more.IH[OF iv2 s2 fr] obtain st' where
    r: "decompress_update_loop lib cl ?s2 = Some (Inr st')" "ctx st' = c'"
      "input_size_hint st' = h'" "input st' = rest"
      "upd_content st' = upd_content ?s2 @ ws" "upd_inv cl st'" by auto
  have "decompress_update_loop lib cl st = decompress_update_loop lib cl ?s2"
    by (rule upd_loop_step[OF go d])
  with r have "decompress_update_loop lib cl st = Some (Inr st')" by simp
  moreover have "upd_content st' = upd_content st @ w @ ws"
    using r(5) by (simp add: upd_content_step upd_content_next)
  ultimately show ?case using r by (intro exI[of _ st']) simp
qed



section \<open>Results of \<^verbatim>\<open>decompress_update\<close>\<close>

lemma replicate_numeral: "replicate (numeral k) x = x # replicate (pred_numeral k) x"
  by (simp add: numeral_eq_Suc)

lemma toy_emit_bounded:
  "toy_emit fi left fill cap src before = Inr (h, w, n, c') \<Longrightarrow>
   length w \<le> cap \<and> n \<le> before + length src"
  unfolding toy_emit_def Let_def by (cases src) (auto split: if_splits)

lemma toy_dec_short:
  "length (hbuf @ take (3 - length hbuf) src) < 3 \<Longrightarrow>
   toy_decompress (AwaitHeader hbuf) cap src sd
     = Inr (3 - length (hbuf @ take (3 - length hbuf) src), [], length src,
            AwaitHeader (hbuf @ take (3 - length hbuf) src))"
  by (simp only: toy_decompress_def Let_def toy_ctx.case if_True)

lemma toy_dec_full:
  "\<not> length (hbuf @ take (3 - length hbuf) src) < 3 \<Longrightarrow>
   toy_decompress (AwaitHeader hbuf) cap src sd
     = toy_emit (toy_info (hbuf @ take (3 - length hbuf) src))
         (unat ((hbuf @ take (3 - length hbuf) src) ! 1))
         ((hbuf @ take (3 - length hbuf) src) ! 2) cap (drop (3 - length hbuf) src)
         (3 - length hbuf)"
  by (simp only: toy_decompress_def Let_def toy_ctx.case if_False)

lemma toy_decompress_bounded:
  assumes "toy_decompress c cap src sd = Inr (h, w, n, c')"
  shows "length w \<le> cap \<and> n \<le> length src"
proof (cases c)
  case (Payload fi left fill)
  with assms toy_emit_bounded[of fi left fill cap src 0 h w n c'] show ?thesis
    by (simp add: toy_decompress_def)
next
  case (AwaitHeader hbuf)
  let ?m = "3 - length hbuf"
  let ?hb = "hbuf @ take ?m src"
  show ?thesis
  proof (cases "length ?hb < 3")
    case True
    from toy_dec_short[OF True, of cap sd] assms AwaitHeader show ?thesis by simp
  next
    case False
    then have m: "?m \<le> length src" by simp
    from toy_dec_full[OF False, of cap sd] assms AwaitHeader
    have "toy_emit (toy_info ?hb) (unat (?hb ! 1)) (?hb ! 2) cap (drop ?m src) ?m = Inr (h, w, n, c')"
      by simp
    from toy_emit_bounded[OF this] m show ?thesis by simp
  qed
qed

lemma toy_bounded: "LZ4F_decompress_bounded toy_lib"
  unfolding LZ4F_decompress_bounded_def toy_lib_def
  using toy_decompress_bounded by simp










text \<open>
  Claim C8, at \<open>chunk_len = -1\<close>: the \<^verbatim>\<open>int\<close> is stored into the unsigned
  \<^verbatim>\<open>size_t chunk_len\<close>, which then holds 4294967295, so the test
  \<^verbatim>\<open>chunk_len <= 0\<close> does not fire: the call is not rejected, reads the input and
  returns a result. Only \<open>chunk_len = 0\<close> is rejected.
\<close>

theorem decompress_update_negative_chunk_len:
  "parse_chunk_len (Some (- 1)) = Inr 4294967295
   \<and> lz4framed_decompress_update toy_lib (Some (AwaitHeader [])) [0, 5, 7, 255] (Some (- 1))
       = Some (Inr ([PyBytes [7, 7, 7, 7, 7], PyLong 0], AwaitHeader []))
   \<and> lz4framed_decompress_update toy_lib (Some (AwaitHeader [])) [0, 5, 7, 255] (Some 0)
       = Some (Inl (ValueError ''chunk_len invalid''))"
  by (simp add: lz4framed_decompress_update_def parse_chunk_len_def parse_int_def INT_MIN_def
      INT_MAX_def store_int_in_size_t_def upd_init_def decompress_update_loop.simps
      next_chunk_def after_step_def toy_lib_def toy_decompress_def toy_emit_def toy_info_def replicate_numeral
      upd_result_def Let_def)

lemma decompress_update_negative_not_rejected:
  "lz4framed_decompress_update lib (Some c) (x # xs) (Some (- 1)) \<noteq> Some (Inl (ValueError ''chunk_len invalid''))"
  by (simp add: lz4framed_decompress_update_def parse_chunk_len_def parse_int_def INT_MIN_def
      INT_MAX_def store_int_in_size_t_def split: option.splits sum.splits)

text \<open>
  Claim C10: when, during a call of \<open>decompress_update\<close>, a call of the decoder reports
  input hint 0 (it has read the trailer of the frame) and leaves the bytes \<open>rest\<close> of
  \<open>b\<close> unread, the loop ends there: the function returns the chunks of the bytes \<open>ws\<close>
  written up to and including that call, followed by the hint 0, and the context is the
  one that call left, so nothing of \<open>rest\<close> has been handed to the decoder again. The
  value returned holds the chunks and the hint only, and no count of the bytes read.
\<close>

theorem decompress_update_ignores_trailing:
  assumes bd: "LZ4F_decompress_bounded lib"
    and cl: "a = None \<and> cl = 65536 \<or> a = Some (int cl) \<and> 0 < cl \<and> int cl \<le> INT_MAX"
    and run: "upd_run lib cl c b cl ws 0 c' rest"
  shows "lz4framed_decompress_update lib (Some c) b a
           = Some (Inr (map PyBytes (chop cl ws) @ [PyLong 0], c'))"
proof -
  from parse_chunk_len_ok[OF cl] have p: "parse_chunk_len a = Inr cl" and pos: "0 < cl" by simp_all
  let ?st = "upd_init c b cl"
  have sel: "ctx ?st = c" "input ?st = b" "0 < input_size_hint ?st"
    "chunk_remaining (next_chunk cl ?st) = cl"
    using pos by (simp_all add: upd_init_def next_chunk_def)
  from upd_run_loop[OF run bd upd_inv_init sel] obtain st' where
    l: "decompress_update_loop lib cl ?st = Some (Inr st')" and c': "ctx st' = c'"
    and h: "input_size_hint st' = 0" and cc: "upd_content st' = upd_content ?st @ ws"
    and iv: "upd_inv cl st'" by blast
  have "upd_content ?st = []" by (simp add: upd_content_def upd_init_def)
  with cc have cc': "upd_content st' = ws" by simp
  from run have ne: "b \<noteq> []" by (cases rule: upd_run.cases) simp_all
  from l ne pos p show ?thesis
    by (simp add: lz4framed_decompress_update_def upd_result_chop[OF iv pos] cc' h c')
qed

lemma toy_run_trailing:
  "upd_run toy_lib 2 (AwaitHeader []) [0, 5, 7, 255, 9, 9] 2 [7, 7, 7, 7, 7] 0 (AwaitHeader []) [9, 9]"
proof -
  let ?fi = "toy_info [0, 5, 7]"
  have d1: "LZ4F_decompress toy_lib (AwaitHeader []) 2 [0, 5, 7, 255, 9, 9] False
              = Inr (1, [7, 7], 3, Payload ?fi 3 7)"
    by (simp add: toy_lib_def toy_decompress_def toy_emit_def Let_def replicate_numeral)
  have d2: "LZ4F_decompress toy_lib (Payload ?fi 3 7) 2 [255, 9, 9] False
              = Inr (1, [7, 7], 0, Payload ?fi 1 7)"
    by (simp add: toy_lib_def toy_decompress_def toy_emit_def Let_def replicate_numeral)
  have d3: "LZ4F_decompress toy_lib (Payload ?fi 1 7) 2 [255, 9, 9] False
              = Inr (0, [7], 1, AwaitHeader [])"
    by (simp add: toy_lib_def toy_decompress_def toy_emit_def Let_def)
  have r3: "upd_run toy_lib 2 (Payload ?fi 1 7) [255, 9, 9] 2 [7] 0 (AwaitHeader []) [9, 9]"
    using upd_run.final[OF _ d3, of 2] by simp
  have r2: "upd_run toy_lib 2 (Payload ?fi 3 7) [255, 9, 9] 2 ([7, 7] @ [7]) 0 (AwaitHeader []) [9, 9]"
    by (rule upd_run.more[OF _ d2]) (use r3 in simp_all)
  have r1: "upd_run toy_lib 2 (AwaitHeader []) [0, 5, 7, 255, 9, 9] 2 ([7, 7] @ [7, 7] @ [7]) 0
              (AwaitHeader []) [9, 9]"
    by (rule upd_run.more[OF _ d1]) (use r2 in simp_all)
  then show ?thesis by simp
qed

theorem decompress_update_ignores_trailing_witness:
  "LZ4F_decompress_bounded toy_lib
   \<and> upd_run toy_lib 2 (AwaitHeader []) [0, 5, 7, 255, 9, 9] 2 [7, 7, 7, 7, 7] 0 (AwaitHeader []) [9, 9]
   \<and> lz4framed_decompress_update toy_lib (Some (AwaitHeader [])) [0, 5, 7, 255, 9, 9] (Some 2)
       = Some (Inr ([PyBytes [7, 7], PyBytes [7, 7], PyBytes [7], PyLong 0], AwaitHeader []))"
proof -
  have cl: "Some 2 = None \<and> (2::nat) = 65536 \<or> Some (2::int) = Some (int 2) \<and> 0 < (2::nat) \<and> int 2 \<le> INT_MAX"
    by (simp add: INT_MAX_def)
  have ch: "chop 2 [7, 7, 7, 7, 7::byte] = [[7, 7], [7, 7], [7]]"
    by (simp add: chop_cons chop_nil)
  from decompress_update_ignores_trailing[OF toy_bounded cl toy_run_trailing]
  show ?thesis using toy_bounded toy_run_trailing by (simp add: ch)
qed

section \<open>The loop of \<^verbatim>\<open>decompress\<close> on a complete frame\<close>

lemma dec_after_step_sel:
  "d_ctx (dec_after_step st (h, w, n, c)) = c"
  "d_hint (dec_after_step st (h, w, n, c)) = h"
  "d_buf (dec_after_step st (h, w, n, c)) = write_at (d_buf st) (d_pos st) w"
  "d_pos (dec_after_step st (h, w, n, c)) = d_pos st + length w"
  "d_remaining (dec_after_step st (h, w, n, c)) = d_remaining st - length w"
  "d_input (dec_after_step st (h, w, n, c)) = drop n (d_input st)"
  "d_len (dec_after_step st (h, w, n, c)) = d_len st"
  "d_events (dec_after_step st (h, w, n, c)) = d_events st"
  by (simp_all add: dec_after_step_def)

lemma dec_grow_sel:
  "d_ctx (dec_grow st) = d_ctx st"
  "d_hint (dec_grow st) = d_hint st"
  "d_buf (dec_grow st) = resize (d_buf st) (d_len st * 2)"
  "d_pos (dec_grow st) = d_len st * 2 - (d_remaining st + d_len st)"
  "d_remaining (dec_grow st) = d_remaining st + d_len st"
  "d_input (dec_grow st) = d_input st"
  "d_len (dec_grow st) = d_len st * 2"
  "d_events (dec_grow st) = d_events st @ [Resize (d_len st * 2)]"
  by (simp_all add: dec_grow_def Let_def)

lemma write_at_length: "pos + length w \<le> length b \<Longrightarrow> length (write_at b pos w) = length b"
  by (simp add: write_at_def)

lemma write_at_take:
  "pos + length w \<le> length b \<Longrightarrow> take (pos + length w) (write_at b pos w) = take pos b @ w"
  by (simp add: write_at_def)

lemma take_add_drop: "take (i + j) xs = take i xs @ take j (drop i xs)"
  by (simp add: take_add)

text \<open>One pass through the loop body.\<close>

lemma dec_loop_done:
  assumes "d_hint st \<noteq> 0"
    and "LZ4F_decompress lib (d_ctx st) (d_remaining st) (d_input st) sd = Inr (0, w, n, c)"
  shows "decompress_loop lib wr fi sd st
           = Some (Inr ((dec_after_step st (0, w, n, c))
                \<lparr>d_len := d_len st - (d_remaining st - length w)\<rparr>))"
  using assms by (subst decompress_loop.simps) (simp add: Let_def dec_after_step_sel)

lemma warned_sel:
  "d_ctx (warned fi st) = d_ctx st"
  "d_hint (warned fi st) = d_hint st"
  "d_buf (warned fi st) = d_buf st"
  "d_pos (warned fi st) = d_pos st"
  "d_remaining (warned fi st) = d_remaining st"
  "d_input (warned fi st) = d_input st"
  "d_len (warned fi st) = d_len st"
  "d_events (warned fi st) = d_events st @ (if contentSize fi > 0 then [Warn mismatch_msg] else [])"
  by (simp_all add: warned_def)

lemma dec_loop_grow:
  assumes "d_hint st \<noteq> 0"
    and "LZ4F_decompress lib (d_ctx st) (d_remaining st) (d_input st) sd = Inr (h, w, n, c)"
    and "h \<noteq> 0" and "drop n (d_input st) \<noteq> []" and "contentSize fi > 0 \<longrightarrow> \<not> wr"
  shows "decompress_loop lib wr fi sd st
           = decompress_loop lib wr fi sd (dec_grow (warned fi (dec_after_step st (h, w, n, c))))"
  using assms by (subst decompress_loop.simps) (auto simp: Let_def dec_after_step_sel warned_def)


lemma dec_loop_total:
  assumes con: "LZ4F_decodes lib sd I"
  shows "dec_inv I p st \<Longrightarrow>
         length p - d_pos st \<le> d_remaining st \<or> (contentSize fi > 0 \<longrightarrow> \<not> wr) \<Longrightarrow>
         \<exists>st' k. decompress_loop lib wr fi sd st = Some (Inr st')
            \<and> resize (d_buf st') (d_len st') = p \<and> d_len st' = length p
            \<and> d_events st' = d_events st @ grow_events (contentSize fi > 0) (d_len st) k
            \<and> (k = 0 \<longleftrightarrow> length p - d_pos st \<le> d_remaining st)"
proof (induction "length p - d_pos st" arbitrary: st rule: less_induct)
  case less
  note iv = less.prems(1) and wr0 = less.prems(2)
  let ?pos = "d_pos st" and ?rem = "d_remaining st" and ?buf = "d_buf st"
  from iv have len: "d_len st = length ?buf" and sum: "?pos + ?rem = d_len st"
    and pre: "take ?pos ?buf = take ?pos p" and le: "?pos \<le> length p"
    and I: "I (d_ctx st) (d_input st) (drop ?pos p)" and hint: "d_hint st \<noteq> 0" and rem: "0 < ?rem"
    unfolding dec_inv_def by simp_all
  from con I obtain h w n c where
    d: "LZ4F_decompress lib (d_ctx st) ?rem (d_input st) sd = Inr (h, w, n, c)"
    and wl: "length w \<le> ?rem" and w: "w = take (length w) (drop ?pos p)"
    and fin: "h = 0 \<longrightarrow> w = drop ?pos p"
    and more: "h \<noteq> 0 \<longrightarrow> length w = ?rem \<and> ?rem < length (drop ?pos p) \<and> drop n (d_input st) \<noteq> []
                  \<and> I c (drop n (d_input st)) (drop (length w) (drop ?pos p))"
    unfolding LZ4F_decodes_def by blast
  let ?st1 = "dec_after_step st (h, w, n, c)"
  from wl sum len have fits: "?pos + length w \<le> length ?buf" by simp
  have buf1: "length (d_buf ?st1) = length ?buf"
    by (simp add: dec_after_step_sel write_at_length[OF fits])
  have "take (?pos + length w) (d_buf ?st1) = take ?pos p @ w"
    by (simp add: dec_after_step_sel write_at_take[OF fits] pre)
  also have "\<dots> = take (?pos + length w) p"
    using w by (simp add: take_add_drop)
  finally have pre1: "take (?pos + length w) (d_buf ?st1) = take (?pos + length w) p" .
  show ?case
  proof (cases "h = 0")
    case True
    with fin have wall: "length w = length p - ?pos" by simp
    let ?st' = "?st1\<lparr>d_len := d_len st - (?rem - length w)\<rparr>"
    from d True have run: "decompress_loop lib wr fi sd st = Some (Inr ?st')"
      using dec_loop_done[OF hint, of lib sd w n c wr fi] by simp
    from wall le have tot: "?pos + length w = length p" by simp
    from sum wl tot have l': "d_len ?st' = length p" by simp
    have "resize (d_buf ?st') (d_len ?st') = take (length p) (d_buf ?st1)"
      using l' buf1 fits tot by (simp add: resize_def)
    also have "\<dots> = p" using pre1 tot by simp
    finally have res: "resize (d_buf ?st') (d_len ?st') = p" .
    have ev: "d_events ?st' = d_events st @ grow_events (contentSize fi > 0) (d_len st) 0"
      by (simp add: dec_after_step_sel)
    have "(0::nat) = 0 \<longleftrightarrow> length p - ?pos \<le> ?rem" using wall wl by simp
    with run res l' ev show ?thesis by blast
  next
    case False
    with more have wfull: "length w = ?rem" and short0: "?rem < length (drop ?pos p)"
      and inp: "drop n (d_input st) \<noteq> []"
      and I0: "I c (drop n (d_input st)) (drop (length w) (drop ?pos p))"
      by blast+
    from short0 have short: "?rem < length p - ?pos" by simp
    have "drop (length w) (drop ?pos p) = drop (?pos + length w) p"
      by (simp add: add.commute)
    with I0 have I1: "I c (drop n (d_input st)) (drop (?pos + length w) p)" by simp
    from wr0 short have wr: "contentSize fi > 0 \<longrightarrow> \<not> wr" by simp
    let ?st2 = "dec_grow (warned fi ?st1)"
    have run: "decompress_loop lib wr fi sd st = decompress_loop lib wr fi sd ?st2"
      by (rule dec_loop_grow[OF hint d False inp wr])
    have pos2: "d_pos ?st2 = ?pos + ?rem"
      using sum wfull by (simp add: dec_grow_sel warned_sel dec_after_step_sel)
    have rem2: "d_remaining ?st2 = d_len st"
      using wfull by (simp add: dec_grow_sel warned_sel dec_after_step_sel)
    have len2: "d_len ?st2 = d_len st * 2"
      by (simp add: dec_grow_sel warned_sel dec_after_step_sel)
    have buf2: "d_buf ?st2 = d_buf ?st1 @ replicate (d_len st) 0"
      using buf1 len by (simp add: dec_grow_sel warned_sel dec_after_step_sel resize_def)
    have "take (d_pos ?st2) (d_buf ?st2) = take (?pos + length w) (d_buf ?st1)"
      using pos2 buf2 buf1 fits wfull by simp
    then have pre2: "take (d_pos ?st2) (d_buf ?st2) = take (d_pos ?st2) p"
      using pre1 pos2 wfull by simp
    have iv2: "dec_inv I p ?st2"
      unfolding dec_inv_def
    proof (intro conjI)
      show "d_len ?st2 = length (d_buf ?st2)" using len2 buf2 buf1 len by simp
      show "d_pos ?st2 + d_remaining ?st2 = d_len ?st2" using pos2 rem2 len2 sum by simp
      show "take (d_pos ?st2) (d_buf ?st2) = take (d_pos ?st2) p" by (rule pre2)
      show "d_pos ?st2 \<le> length p" using pos2 short by simp
      have "d_ctx ?st2 = c" "d_input ?st2 = drop n (d_input st)"
        by (simp_all add: dec_grow_sel warned_sel dec_after_step_sel)
      with I1 wfull show "I (d_ctx ?st2) (d_input ?st2) (drop (d_pos ?st2) p)"
        unfolding pos2 by simp
      show "d_hint ?st2 \<noteq> 0" using False by (simp add: dec_grow_sel warned_sel dec_after_step_sel)
      show "0 < d_remaining ?st2" using rem2 sum rem by simp
    qed
    have "length p - d_pos ?st2 < length p - ?pos" using pos2 rem short by simp
    from less.hyps[OF this iv2] wr obtain st' k where
      r2: "decompress_loop lib wr fi sd ?st2 = Some (Inr st')"
      and res: "resize (d_buf st') (d_len st') = p" and l': "d_len st' = length p"
      and ev2: "d_events st' = d_events ?st2 @ grow_events (contentSize fi > 0) (d_len ?st2) k"
      by blast
    have "d_events ?st2 = d_events st @ (if contentSize fi > 0 then [Warn mismatch_msg] else [])
            @ [Resize (d_len st * 2)]"
      by (simp add: dec_grow_sel warned_sel dec_after_step_sel)
    with ev2 len2 have ev: "d_events st' = d_events st @ grow_events (contentSize fi > 0) (d_len st) (Suc k)"
      by simp
    have "Suc k = 0 \<longleftrightarrow> length p - ?pos \<le> ?rem" using short by simp
    with run r2 res l' ev show ?thesis by metis
  qed
qed


lemma dec_inv_init:
  assumes "I c inp p" "h \<noteq> 0" "0 < l"
  shows "dec_inv I p (dec_init c inp h l)"
  using assms by (simp add: dec_inv_def dec_init_def)

lemma parse_buffer_size_ok:
  assumes "a = None \<and> bs = 1024 \<or> a = Some (int bs) \<and> 0 < bs \<and> int bs \<le> INT_MAX"
  shows "parse_buffer_size a = Inr (int bs) \<and> 0 < bs"
  using assms by (auto simp: parse_buffer_size_def parse_int_def INT_MIN_def INT_MAX_def)

text \<open>The function up to the loop, once the header has been read.\<close>

lemma decompress_after_header:
  assumes a: "parse_buffer_size a = Inr (int bs)" "0 < bs" and ne: "b \<noteq> []"
    and cr: "LZ4F_createDecompressionContext lib = Inr c0"
    and gfi: "LZ4F_getFrameInfo lib c0 b = (Inr (h0, fi, n0), c1)"
    and l: "l = (if contentSize fi > 0 then contentSize fi else MAX_macro bs (length (drop n0 b)))"
    and run: "decompress_loop lib wr fi (contentSize fi > 0) (dec_init c1 (drop n0 b) h0 l) = Some (Inr st')"
  shows "lz4framed_decompress lib wr b a
           = Some (Inr (resize (d_buf st') (d_len st'), d_events st' @ [Resize (d_len st')]))"
proof (cases "contentSize fi > 0")
  case True
  with a ne cr gfi run l show ?thesis by (simp add: lz4framed_decompress_def Let_def)
next
  case False
  with a ne cr gfi run l show ?thesis by (simp add: lz4framed_decompress_def Let_def)
qed

lemma decompress_complete_frame:
  assumes a: "a = None \<and> bs = 1024 \<or> a = Some (int bs) \<and> 0 < bs \<and> int bs \<le> INT_MAX"
    and ne: "b \<noteq> []"
    and cr: "LZ4F_createDecompressionContext lib = Inr c0"
    and gfi: "LZ4F_getFrameInfo lib c0 b = (Inr (h0, fi, n0), c1)" and h0: "0 < h0"
    and frame: "I c1 (drop n0 b) p"
    and con: "LZ4F_decodes lib (contentSize fi > 0) I"
    and l: "l = (if contentSize fi > 0 then contentSize fi else MAX_macro bs (length (drop n0 b)))"
    and wr: "length p \<le> l \<or> (contentSize fi > 0 \<longrightarrow> \<not> wr)"
  shows "\<exists>k. lz4framed_decompress lib wr b a
           = Some (Inr (p, Alloc l # grow_events (contentSize fi > 0) l k @ [Resize (length p)]))
         \<and> (k = 0 \<longleftrightarrow> length p \<le> l)"
proof -
  from parse_buffer_size_ok[OF a] have pa: "parse_buffer_size a = Inr (int bs)" "0 < bs" by simp_all
  have lpos: "0 < l" using l pa(2) by (auto simp: MAX_macro_def split: if_splits)
  let ?st = "dec_init c1 (drop n0 b) h0 l"
  from h0 have "h0 \<noteq> 0" by simp
  with frame lpos have iv: "dec_inv I p ?st"
    by (simp add: dec_inv_def dec_init_def)
  have sel: "d_pos ?st = 0" "d_remaining ?st = l" "d_len ?st = l" "d_events ?st = [Alloc l]"
    by (simp_all add: dec_init_def)
  from wr have "length p - d_pos ?st \<le> d_remaining ?st \<or> (contentSize fi > 0 \<longrightarrow> \<not> wr)"
    by (simp add: sel)
  from dec_loop_total[OF con iv this] obtain st' k where
    run: "decompress_loop lib wr fi (contentSize fi > 0) ?st = Some (Inr st')"
    and res: "resize (d_buf st') (d_len st') = p" and l': "d_len st' = length p"
    and ev: "d_events st' = d_events ?st @ grow_events (contentSize fi > 0) (d_len ?st) k"
    and k: "k = 0 \<longleftrightarrow> length p - d_pos ?st \<le> d_remaining ?st"
    by blast
  have "lz4framed_decompress lib wr b a
          = Some (Inr (resize (d_buf st') (d_len st'), d_events st' @ [Resize (d_len st')]))"
    by (rule decompress_after_header[OF pa ne cr gfi l run])
  also have "\<dots> = Some (Inr (p, Alloc l # grow_events (contentSize fi > 0) l k @ [Resize (length p)]))"
    unfolding res by (simp add: l' ev sel)
  finally have "lz4framed_decompress lib wr b a
          = Some (Inr (p, Alloc l # grow_events (contentSize fi > 0) l k @ [Resize (length p)]))" .
  moreover from k have "k = 0 \<longleftrightarrow> length p \<le> l" by (simp add: sel)
  ultimately show ?thesis by blast
qed

section \<open>Results of \<^verbatim>\<open>decompress\<close>\<close>

lemma toy_decodes: "LZ4F_decodes toy_lib sd toy_rest"
  unfolding LZ4F_decodes_def
proof (intro allI impI)
  fix c src out cap
  assume "toy_rest c src out"
  then obtain fi left fill where c: "c = Payload fi left fill"
    and out: "out = replicate left fill" and src: "src \<noteq> []"
    by (cases c) (auto simp: toy_rest_def)
  show "\<exists>h w n c'. LZ4F_decompress toy_lib c cap src sd = Inr (h, w, n, c')
           \<and> length w \<le> cap \<and> n \<le> length src \<and> w = take (length w) out
           \<and> (h = 0 \<longrightarrow> w = out)
           \<and> (h \<noteq> 0 \<longrightarrow> length w = cap \<and> cap < length out \<and> drop n src \<noteq> []
                          \<and> toy_rest c' (drop n src) (drop (length w) out))"
  proof (cases "left \<le> cap")
    case True
    with src have "LZ4F_decompress toy_lib c cap src sd = Inr (0, replicate left fill, 1, AwaitHeader [])"
      by (simp add: toy_lib_def toy_decompress_def toy_emit_def c min_def)
    moreover from src have "1 \<le> length src" by (cases src) auto
    ultimately show ?thesis using True out by simp
  next
    case False
    then have "LZ4F_decompress toy_lib c cap src sd
                 = Inr (1, replicate cap fill, 0, Payload fi (left - cap) fill)"
      by (simp add: toy_lib_def toy_decompress_def toy_emit_def c min_def)
    then show ?thesis using False out src
      by (simp add: toy_rest_def min_def)
  qed
qed

text \<open>
  Claim C2: for a frame whose header declares no content length and a positive
  \<open>buffer_size\<close>, \<open>decompress\<close> allocates max(\<open>buffer_size\<close>, input left after the
  header) bytes, doubles the buffer \<open>k\<close> times (not at all exactly when the original
  bytes fit the first buffer), cuts it to the length written and returns exactly the
  original bytes \<open>p\<close> of the frame. That the bytes returned are \<open>p\<close> shows that writing
  resumes at the right offset after each doubling.
\<close>

theorem decompress_unknown_size:
  assumes a: "a = None \<and> bs = 1024 \<or> a = Some (int bs) \<and> 0 < bs \<and> int bs \<le> INT_MAX"
    and ne: "b \<noteq> []"
    and cr: "LZ4F_createDecompressionContext lib = Inr c0"
    and gfi: "LZ4F_getFrameInfo lib c0 b = (Inr (h0, fi, n0), c1)" and h0: "0 < h0"
    and unk: "contentSize fi = 0"
    and frame: "I c1 (drop n0 b) p"
    and con: "LZ4F_decodes lib False I"
  shows "\<exists>k. lz4framed_decompress lib wr b a
           = Some (Inr (p, Alloc (max bs (length b - n0))
                          # grow_events False (max bs (length b - n0)) k @ [Resize (length p)]))
         \<and> (k = 0 \<longleftrightarrow> length p \<le> max bs (length b - n0))"
proof -
  have l: "max bs (length b - n0)
             = (if contentSize fi > 0 then contentSize fi else MAX_macro bs (length (drop n0 b)))"
    using unk by (simp add: MAX_macro_def max_def)
  from con unk have con': "LZ4F_decodes lib (contentSize fi > 0) I" by simp
  from unk have wr: "length p \<le> max bs (length b - n0) \<or> (contentSize fi > 0 \<longrightarrow> \<not> wr)" by simp
  from decompress_complete_frame[OF a ne cr gfi h0 frame con' l wr] unk show ?thesis by simp
qed

text \<open>
  Claim C3: for a frame that declares a nonzero content length equal to the length of
  its original bytes \<open>p\<close>, \<open>decompress\<close> allocates the output once, with exactly that
  length, never enlarges it and never warns; the only \<^verbatim>\<open>_PyBytes_Resize\<close> is the last
  one, to the same length.
\<close>

theorem decompress_known_size:
  assumes a: "a = None \<and> bs = 1024 \<or> a = Some (int bs) \<and> 0 < bs \<and> int bs \<le> INT_MAX"
    and ne: "b \<noteq> []"
    and cr: "LZ4F_createDecompressionContext lib = Inr c0"
    and gfi: "LZ4F_getFrameInfo lib c0 b = (Inr (h0, fi, n0), c1)" and h0: "0 < h0"
    and known: "contentSize fi = length p" "0 < length p"
    and frame: "I c1 (drop n0 b) p"
    and con: "LZ4F_decodes lib True I"
  shows "lz4framed_decompress lib wr b a = Some (Inr (p, [Alloc (length p), Resize (length p)]))"
proof -
  have l: "length p = (if contentSize fi > 0 then contentSize fi else MAX_macro bs (length (drop n0 b)))"
    using known by simp
  from con known have con': "LZ4F_decodes lib (contentSize fi > 0) I" by simp
  have wr: "length p \<le> length p \<or> (contentSize fi > 0 \<longrightarrow> \<not> wr)" by simp
  from decompress_complete_frame[OF a ne cr gfi h0 frame con' l wr] obtain k where
    r: "lz4framed_decompress lib wr b a
          = Some (Inr (p, Alloc (length p) # grow_events (contentSize fi > 0) (length p) k @ [Resize (length p)]))"
    and k: "k = 0 \<longleftrightarrow> length p \<le> length p" by blast
  from k have "k = 0" by simp
  with r show ?thesis by simp
qed





text \<open>
  Claim C7: when the codec reports the header of the input as incomplete,
  \<open>decompress\<close> raises \<open>Lz4FramedError\<close> with the identifier
  \<^verbatim>\<open>LZ4F_ERROR_frameHeader_incomplete\<close>, which differs from the identifier of every
  other codec error, and returns no output.
\<close>

theorem decompress_header_incomplete:
  assumes a: "a = None \<and> bs = 1024 \<or> a = Some (int bs) \<and> 0 < bs \<and> int bs \<le> INT_MAX"
    and ne: "b \<noteq> []"
    and cr: "LZ4F_createDecompressionContext lib = Inr c0"
    and gfi: "LZ4F_getFrameInfo lib c0 b = (Inl LZ4F_ERROR_frameHeader_incomplete, c1)"
  shows "lz4framed_decompress lib wr b a = Some (Inl (Lz4FramedError LZ4F_ERROR_frameHeader_incomplete))
         \<and> (\<forall>e. lz4framed_decompress lib wr b a = Some (Inl (Lz4FramedError e))
                \<longrightarrow> e = LZ4F_ERROR_frameHeader_incomplete)
         \<and> (\<forall>out. lz4framed_decompress lib wr b a \<noteq> Some (Inr out))"
proof -
  from parse_buffer_size_ok[OF a] have "parse_buffer_size a = Inr (int bs)" "0 < bs" by simp_all
  with ne cr gfi
  have "lz4framed_decompress lib wr b a = Some (Inl (Lz4FramedError LZ4F_ERROR_frameHeader_incomplete))"
    by (simp add: lz4framed_decompress_def)
  then show ?thesis by simp
qed


lemmas toy_eval =
  lz4framed_decompress_def parse_buffer_size_def parse_int_def INT_MIN_def INT_MAX_def
  toy_lib_def toy_getFrameInfo_def toy_decompress_def toy_emit_def toy_info_def
  decompress_loop.simps dec_init_def dec_after_step_def dec_grow_def write_at_def resize_def
  MAX_macro_def mismatch_msg_def Let_def replicate_numeral

lemma toy_header:
  "LZ4F_createDecompressionContext toy_lib = Inr (AwaitHeader [])"
  "LZ4F_getFrameInfo toy_lib (AwaitHeader []) [d, n, x, e]
     = (Inr (1, toy_info [d, n, x], 3), Payload (toy_info [d, n, x]) (unat n) x)"
  "toy_rest (Payload fi k x) (drop 3 [d, n, x, e]) (replicate k x)"
  by (simp_all add: toy_lib_def toy_getFrameInfo_def toy_rest_def Let_def)

theorem decompress_unknown_size_witness:
  "LZ4F_decodes toy_lib False toy_rest
   \<and> contentSize (toy_info [0, 5, 7]) = 0
   \<and> (\<exists>k. lz4framed_decompress toy_lib False [0, 5, 7, 255] (Some 1)
              = Some (Inr (replicate 5 7, Alloc 1 # grow_events False 1 k @ [Resize 5]))
            \<and> k \<noteq> 0)
   \<and> lz4framed_decompress toy_lib False [0, 5, 7, 255] (Some 1)
       = Some (Inr ([7, 7, 7, 7, 7], [Alloc 1, Resize 2, Resize 4, Resize 8, Resize 5]))"
proof -
  have a: "Some 1 = None \<and> (1::nat) = 1024 \<or> Some (1::int) = Some (int 1) \<and> 0 < (1::nat) \<and> int 1 \<le> INT_MAX"
    by (simp add: INT_MAX_def)
  have unk: "contentSize (toy_info [0, 5, 7]) = 0" by (simp add: toy_info_def)
  have fr: "toy_rest (Payload (toy_info [0, 5, 7]) (unat (5::byte)) 7) (drop 3 [0, 5, 7, 255])
              (replicate 5 7)"
    using toy_header(3)[of "toy_info [0, 5, 7]" 5 7 0 5 255] by simp
  have ev: "lz4framed_decompress toy_lib False [0, 5, 7, 255] (Some 1)
       = Some (Inr ([7, 7, 7, 7, 7], [Alloc 1, Resize 2, Resize 4, Resize 8, Resize 5]))"
    by (simp add: toy_eval)
  from decompress_unknown_size[OF a _ toy_header(1) toy_header(2) _ unk fr toy_decodes, of False]
  show ?thesis using toy_decodes unk ev by simp
qed

theorem decompress_known_size_witness:
  "LZ4F_decodes toy_lib True toy_rest
   \<and> contentSize (toy_info [5, 5, 7]) = length (replicate 5 (7::byte))
   \<and> lz4framed_decompress toy_lib True [5, 5, 7, 255] None
       = Some (Inr (replicate 5 7, [Alloc 5, Resize 5]))"
proof -
  have a: "None = None \<and> (1024::nat) = 1024 \<or> None = Some (int 1024) \<and> 0 < (1024::nat) \<and> int 1024 \<le> INT_MAX"
    by simp
  have known: "contentSize (toy_info [5, 5, 7]) = length (replicate 5 (7::byte))"
    "0 < length (replicate 5 (7::byte))" by (simp_all add: toy_info_def)
  have fr: "toy_rest (Payload (toy_info [5, 5, 7]) (unat (5::byte)) 7) (drop 3 [5, 5, 7, 255])
              (replicate 5 7)"
    using toy_header(3)[of "toy_info [5, 5, 7]" 5 7 5 5 255] by simp
  from decompress_known_size[OF a _ toy_header(1) toy_header(2) _ known fr toy_decodes, of True]
  show ?thesis using toy_decodes known by simp
qed



theorem decompress_header_incomplete_witness:
  "LZ4F_getFrameInfo toy_lib (AwaitHeader []) [0, 5]
     = (Inl LZ4F_ERROR_frameHeader_incomplete, AwaitHeader [0, 5])
   \<and> lz4framed_decompress toy_lib False [0, 5] None
       = Some (Inl (Lz4FramedError LZ4F_ERROR_frameHeader_incomplete))"
proof -
  have a: "None = None \<and> (1024::nat) = 1024 \<or> None = Some (int 1024) \<and> 0 < (1024::nat) \<and> int 1024 \<le> INT_MAX"
    by simp
  have g: "LZ4F_getFrameInfo toy_lib (AwaitHeader []) [0, 5]
             = (Inl LZ4F_ERROR_frameHeader_incomplete, AwaitHeader [0, 5])"
    by (simp add: toy_lib_def toy_getFrameInfo_def Let_def)
  from decompress_header_incomplete[OF a _ toy_header(1) g, of False]
  show ?thesis using g by simp
qed

section \<open>The frame writer: incremental and one-shot\<close>



























section \<open>Frame information after feeding a context\<close>










end
